theory Spec2Isabelle
  imports Main "HOL-Library.Sublist" "HOL-Library.AList"
begin

section \<open>Strings of the host language\<close>

text \<open>
  The server is one TypeScript file, \<^verbatim>\<open>src/index.ts\<close>. Its strings are modelled as
  \<^typ>\<open>string\<close>, one list element per code unit, which is what the lengths and
  positions of the source count. The functions of this section are the built-in string
  methods the file calls (\<^verbatim>\<open>startsWith\<close>, \<^verbatim>\<open>indexOf\<close>, \<^verbatim>\<open>includes\<close>, \<^verbatim>\<open>substring\<close>,
  \<^verbatim>\<open>replace\<close>), written after the ECMAScript definitions of these methods.
  \<^verbatim>\<open>toLowerCase\<close> depends on the character tables of the host and is a parameter of the
  model, introduced with the host below.
\<close>

definition startsWith :: "string \<Rightarrow> string \<Rightarrow> bool" where
  "startsWith s p = prefix p s"

text \<open>\<^verbatim>\<open>s.indexOf(q)\<close>: the least position at which \<open>q\<close> occurs in \<open>s\<close>, or \<open>-1\<close>.\<close>

fun indexOf :: "string \<Rightarrow> string \<Rightarrow> int" where
  "indexOf [] q = (if q = [] then 0 else - 1)"
| "indexOf (c # cs) q =
     (if prefix q (c # cs) then 0
      else (let r = indexOf cs q in if r = - 1 then - 1 else r + 1))"

text \<open>\<^verbatim>\<open>s.includes(q)\<close> is \<^verbatim>\<open>s.indexOf(q) !== -1\<close>.\<close>

definition includes_str :: "string \<Rightarrow> string \<Rightarrow> bool" where
  "includes_str s q = (indexOf s q \<noteq> - 1)"

text \<open>
  \<^verbatim>\<open>s.substring(a, b)\<close>: both indices are clamped to \<open>[0, length s]\<close> and swapped when
  the first is the larger.
\<close>

definition substring :: "string \<Rightarrow> int \<Rightarrow> int \<Rightarrow> string" where
  "substring s a b =
     (let n = int (length s);
          a' = min (max a 0) n;
          b' = min (max b 0) n;
          lo = min a' b';
          hi = max a' b'
      in take (nat (hi - lo)) (drop (nat lo) s))"

text \<open>\<^verbatim>\<open>s.replace(/\n/g, " ")\<close>: every line feed becomes a space.\<close>

definition newlines_to_spaces :: "string \<Rightarrow> string" where
  "newlines_to_spaces s = map (\<lambda>c. if c = CHR 0x0A then CHR '' '' else c) s"

text \<open>
  \<^verbatim>\<open>s.replace(pat, rep)\<close> with a string pattern replaces the first occurrence of
  \<open>pat\<close>, and the replacement is not \<open>rep\<close> itself but its expansion by the abstract
  operation GetSubstitution: \<^verbatim>\<open>$$\<close> stands for a dollar sign, \<^verbatim>\<open>$&\<close> for the matched
  text, \<^verbatim>\<open>$`\<close> for the text before the match and \<^verbatim>\<open>$'\<close> for the text after it. A
  string pattern has no capture groups, so \<^verbatim>\<open>$1\<close> and \<^verbatim>\<open>$<name>\<close> stay as written.
\<close>

fun getSubstitution :: "string \<Rightarrow> string \<Rightarrow> nat \<Rightarrow> string \<Rightarrow> string" where
  "getSubstitution matched str pos [] = []"
| "getSubstitution matched str pos [c] = [c]"
| "getSubstitution matched str pos (c # d # rest) =
     (if c = CHR ''$'' \<and> d = CHR ''$'' then CHR ''$'' # getSubstitution matched str pos rest
      else if c = CHR ''$'' \<and> d = CHR ''&'' then matched @ getSubstitution matched str pos rest
      else if c = CHR ''$'' \<and> d = CHR 0x60 then take pos str @ getSubstitution matched str pos rest
      else if c = CHR ''$'' \<and> d = CHR 0x27
        then drop (pos + length matched) str @ getSubstitution matched str pos rest
      else c # getSubstitution matched str pos (d # rest))"

definition replace :: "string \<Rightarrow> string \<Rightarrow> string \<Rightarrow> string" where
  "replace s pat rep =
     (let pos = indexOf s pat
      in if pos = - 1 then s
         else take (nat pos) s @ getSubstitution pat s (nat pos) rep
                @ drop (nat pos + length pat) s)"

section \<open>Paths\<close>

text \<open>
  \<^verbatim>\<open>path.resolve\<close> and \<^verbatim>\<open>path.dirname\<close> of the host's POSIX path module. A path is
  cut at its slashes; \<open>normalizeString\<close> walks the pieces from left to right, drops the
  empty ones and \<^verbatim>\<open>.\<close>, and lets \<^verbatim>\<open>..\<close> remove the piece before it. Above the root
  of an absolute path \<^verbatim>\<open>..\<close> is dropped; in a relative path it is kept.
\<close>

fun splitOn :: "char \<Rightarrow> string \<Rightarrow> string list" where
  "splitOn d [] = [[]]"
| "splitOn d (c # cs) =
     (if c = d then [] # splitOn d cs
      else (case splitOn d cs of [] \<Rightarrow> [[c]] | w # ws \<Rightarrow> (c # w) # ws))"

fun normalizeString :: "bool \<Rightarrow> string list \<Rightarrow> string list \<Rightarrow> string list" where
  "normalizeString allowAboveRoot res [] = res"
| "normalizeString allowAboveRoot res (s # ss) =
     (if s = [] \<or> s = ''.'' then normalizeString allowAboveRoot res ss
      else if s = ''..'' then
        (if res \<noteq> [] \<and> last res \<noteq> ''..'' then normalizeString allowAboveRoot (butlast res) ss
         else if allowAboveRoot then normalizeString allowAboveRoot (res @ [''..'']) ss
         else normalizeString allowAboveRoot res ss)
      else normalizeString allowAboveRoot (res @ [s]) ss)"

text \<open>The pieces joined by slashes, without a leading one.\<close>

fun join_segments :: "string list \<Rightarrow> string" where
  "join_segments [] = []"
| "join_segments [s] = s"
| "join_segments (s # t # ss) = s @ CHR ''/'' # join_segments (t # ss)"

text \<open>
  The loop of \<^verbatim>\<open>path.resolve\<close> reads its arguments from the last to the first and
  stops at the first absolute one; empty arguments are skipped. It is given the
  arguments already reversed, followed by the working directory.
\<close>

fun resolve_loop :: "string list \<Rightarrow> string \<Rightarrow> string \<times> bool" where
  "resolve_loop [] resolvedPath = (resolvedPath, False)"
| "resolve_loop (p # ps) resolvedPath =
     (if p = [] then resolve_loop ps resolvedPath
      else if hd p = CHR ''/'' then (p @ CHR ''/'' # resolvedPath, True)
      else resolve_loop ps (p @ CHR ''/'' # resolvedPath))"

definition path_resolve :: "string \<Rightarrow> string list \<Rightarrow> string" where
  "path_resolve cwd paths =
     (case resolve_loop (rev paths @ [cwd]) [] of
        (resolvedPath, resolvedAbsolute) \<Rightarrow>
          (let segs = normalizeString (\<not> resolvedAbsolute) [] (splitOn CHR ''/'' resolvedPath)
           in if resolvedAbsolute then CHR ''/'' # join_segments segs
              else if segs = [] then ''.'' else join_segments segs))"

text \<open>
  \<^verbatim>\<open>path.dirname\<close>, for the absolute paths that \<^verbatim>\<open>path.resolve\<close> returns (the only
  ones the server passes to it): the path without its last piece, and \<^verbatim>\<open>/\<close> for a
  path of one piece or none.
\<close>

definition segments :: "string \<Rightarrow> string list" where
  "segments p = filter (\<lambda>s. s \<noteq> []) (splitOn CHR ''/'' p)"

definition dirname :: "string \<Rightarrow> string" where
  "dirname p = CHR ''/'' # join_segments (butlast (segments p))"

section \<open>The vault root and the path guard\<close>

text \<open>
  What the process is started with: its working directory and the command-line argument
  \<^verbatim>\<open>VAULT_PATH\<close>. The working directory of a process is an absolute path. (Without
  the argument the process exits before it serves any request.)
\<close>

record process =
  cwd :: string
  VAULT_PATH :: string

text \<open>\<^verbatim>\<open>const ABSOLUTE_VAULT_PATH = path.resolve(VAULT_PATH)\<close>\<close>

definition ABSOLUTE_VAULT_PATH :: "process \<Rightarrow> string" where
  "ABSOLUTE_VAULT_PATH pr = path_resolve (cwd pr) [VAULT_PATH pr]"

text \<open>The errors the server raises, and the error codes of the file system calls.\<close>

datatype errno = ENOENT | EISDIR | ENOTDIR | EEXIST | ENAMETOOLONG | ERR_INVALID_ARG_VALUE

datatype error =
    AccessDenied
  | NotAFile
  | PatchTargetNotFound
  | FsError errno
  | MethodNotFound string

text \<open>
  \<^verbatim>\<open>getSafePath\<close>: the requested path is resolved against the vault root, and refused
  unless the result starts with the root, compared as strings.
\<close>

definition getSafePath :: "process \<Rightarrow> string \<Rightarrow> error + string" where
  "getSafePath pr relativePath =
     (let targetPath = path_resolve (cwd pr) [ABSOLUTE_VAULT_PATH pr, relativePath]
      in if \<not> startsWith targetPath (ABSOLUTE_VAULT_PATH pr) then Inl AccessDenied
         else Inr targetPath)"

section \<open>The host\<close>

text \<open>
  Three things the server leaves to the host are parameters of the model, and every
  theorem that is stated for a host \<open>h\<close> holds for whatever the host does there.
  \<^item> \<open>toLowerCase h\<close> is the method \<^verbatim>\<open>toLowerCase\<close> of strings. It follows the character
    tables of the host and need not keep the length of a text.
  \<^item> \<open>refuses h p\<close> is the error with which the file system calls reject the path \<open>p\<close>
    before they look at any file, if they do: \<^verbatim>\<open>ERR_INVALID_ARG_VALUE\<close> for a path with
    a NUL character, \<^verbatim>\<open>ENAMETOOLONG\<close> for a path or a name that is too long.
  \<^item> \<open>utf8 h s\<close> is the text that is read back after \<open>s\<close> was written with the encoding
    \<^verbatim>\<open>utf-8\<close>: \<open>s\<close> itself, but for every lone surrogate the replacement character.
\<close>

record host =
  toLowerCase :: "string \<Rightarrow> string"
  refuses :: "string \<Rightarrow> errno option"
  utf8 :: "string \<Rightarrow> string"

section \<open>The file system\<close>

text \<open>
  The calls of \<^verbatim>\<open>fs/promises\<close> act on a file system, passed in and returned. It is a
  list of entries, absolute path and node, in the order in which a directory walk meets
  them; \<^verbatim>\<open>/\<close> is always a directory. A file holds the text that reading it with the
  encoding \<^verbatim>\<open>utf-8\<close> returns. Names are compared as they are written, as on a file
  system that distinguishes upper and lower case; links and permissions are not part of
  the model. A call either fails with an error code or returns its value or the new file
  system; a failed call leaves the file system as it was.
\<close>

datatype node = File string | Dir

type_synonym filesystem = "(string \<times> node) list"

definition lookup :: "filesystem \<Rightarrow> string \<Rightarrow> node option" where
  "lookup fs p = (if p = ''/'' then Some Dir else map_of fs p)"

text \<open>
  The directories above a path, from the top down: those on the way to its
  \<^verbatim>\<open>dirname\<close>. Every call walks through them first; one that is absent ends the walk
  with \<^verbatim>\<open>ENOENT\<close>, one that is a file with \<^verbatim>\<open>ENOTDIR\<close>.
\<close>

fun directories_from :: "string \<Rightarrow> string list \<Rightarrow> string list" where
  "directories_from cur [] = []"
| "directories_from cur (s # ss) = (cur @ CHR ''/'' # s) # directories_from (cur @ CHR ''/'' # s) ss"

definition parent_directories :: "string \<Rightarrow> string list" where
  "parent_directories p = directories_from [] (segments (dirname p))"

fun walk_dirs :: "filesystem \<Rightarrow> string list \<Rightarrow> errno option" where
  "walk_dirs fs [] = None"
| "walk_dirs fs (d # ds) =
     (case lookup fs d of
        None \<Rightarrow> Some ENOENT
      | Some (File c) \<Rightarrow> Some ENOTDIR
      | Some Dir \<Rightarrow> walk_dirs fs ds)"

definition reach :: "host \<Rightarrow> filesystem \<Rightarrow> string \<Rightarrow> errno option" where
  "reach h fs p =
     (case refuses h p of Some e \<Rightarrow> Some e | None \<Rightarrow> walk_dirs fs (parent_directories p))"

definition stat :: "host \<Rightarrow> filesystem \<Rightarrow> string \<Rightarrow> error + node" where
  "stat h fs p =
     (case reach h fs p of
        Some e \<Rightarrow> Inl (FsError e)
      | None \<Rightarrow> (case lookup fs p of None \<Rightarrow> Inl (FsError ENOENT) | Some n \<Rightarrow> Inr n))"

fun isFile :: "node \<Rightarrow> bool" where
  "isFile (File c) = True"
| "isFile Dir = False"

definition readFile :: "host \<Rightarrow> filesystem \<Rightarrow> string \<Rightarrow> error + string" where
  "readFile h fs p =
     (case reach h fs p of
        Some e \<Rightarrow> Inl (FsError e)
      | None \<Rightarrow>
          (case lookup fs p of
             None \<Rightarrow> Inl (FsError ENOENT)
           | Some Dir \<Rightarrow> Inl (FsError EISDIR)
           | Some (File c) \<Rightarrow> Inr c))"

text \<open>
  \<^verbatim>\<open>writeFile\<close> and \<^verbatim>\<open>appendFile\<close> open the file for writing and create it when it
  is absent and its directory exists; \<^verbatim>\<open>writeFile\<close> replaces the content,
  \<^verbatim>\<open>appendFile\<close> adds to its end. What they write is the text encoded as UTF-8.
\<close>

definition open_for_write :: "host \<Rightarrow> filesystem \<Rightarrow> string \<Rightarrow> error + string option" where
  "open_for_write h fs p =
     (case reach h fs p of
        Some e \<Rightarrow> Inl (FsError e)
      | None \<Rightarrow>
          (case lookup fs p of
             Some Dir \<Rightarrow> Inl (FsError EISDIR)
           | Some (File c) \<Rightarrow> Inr (Some c)
           | None \<Rightarrow> Inr None))"

definition writeFile :: "host \<Rightarrow> filesystem \<Rightarrow> string \<Rightarrow> string \<Rightarrow> error + filesystem" where
  "writeFile h fs p data =
     (case open_for_write h fs p of
        Inl e \<Rightarrow> Inl e
      | Inr old \<Rightarrow> Inr (AList.update p (File (utf8 h data)) fs))"

definition appendFile :: "host \<Rightarrow> filesystem \<Rightarrow> string \<Rightarrow> string \<Rightarrow> error + filesystem" where
  "appendFile h fs p data =
     (case open_for_write h fs p of
        Inl e \<Rightarrow> Inl e
      | Inr None \<Rightarrow> Inr (AList.update p (File (utf8 h data)) fs)
      | Inr (Some c) \<Rightarrow> Inr (AList.update p (File (c @ utf8 h data)) fs))"

text \<open>
  \<^verbatim>\<open>mkdir(d, { recursive: true })\<close>: every directory on the way down to \<open>d\<close> that
  is absent is created; a file on the way is an error.
\<close>

fun mkdir_loop :: "filesystem \<Rightarrow> string \<Rightarrow> string list \<Rightarrow> error + filesystem" where
  "mkdir_loop fs cur [] = Inr fs"
| "mkdir_loop fs cur (s # ss) =
     (case lookup fs (cur @ CHR ''/'' # s) of
        None \<Rightarrow> mkdir_loop (AList.update (cur @ CHR ''/'' # s) Dir fs) (cur @ CHR ''/'' # s) ss
      | Some Dir \<Rightarrow> mkdir_loop fs (cur @ CHR ''/'' # s) ss
      | Some (File c) \<Rightarrow> Inl (FsError (if ss = [] then EEXIST else ENOTDIR)))"

definition mkdir_recursive :: "host \<Rightarrow> filesystem \<Rightarrow> string \<Rightarrow> error + filesystem" where
  "mkdir_recursive h fs d =
     (case refuses h d of
        Some e \<Rightarrow> Inl (FsError e)
      | None \<Rightarrow> mkdir_loop fs [] (segments d))"

section \<open>Enumerating the notes\<close>

text \<open>
  \<^verbatim>\<open>glob("**/*.md", { cwd, ignore })\<close> of the glob package: the paths below \<open>cwd\<close>,
  relative to it, whose last piece ends in \<^verbatim>\<open>.md\<close>, without those an ignore pattern
  matches. The package has an option \<^verbatim>\<open>dot\<close>, false unless it is given: without it a
  wildcard does not match a piece that begins with a dot, so \<^verbatim>\<open>**\<close> does not enter
  such a directory and \<^verbatim>\<open>*.md\<close> does not match such a file. Ignore patterns always
  match as if \<^verbatim>\<open>dot\<close> were set. The model covers ignore patterns made of literal
  pieces, with or without a final \<^verbatim>\<open>**\<close>, as the server's are.
\<close>

definition hidden :: "string \<Rightarrow> bool" where
  "hidden piece = prefix ''.'' piece"

definition matches_md :: "bool \<Rightarrow> string list \<Rightarrow> bool" where
  "matches_md dot pieces =
     (pieces \<noteq> [] \<and> suffix ''.md'' (last pieces) \<and> (dot \<or> \<not> list_ex hidden pieces))"

definition matches_ignore :: "string \<Rightarrow> string list \<Rightarrow> bool" where
  "matches_ignore pat pieces =
     (let ps = splitOn CHR ''/'' pat
      in if last ps = ''**'' then prefix (butlast ps) pieces else pieces = ps)"

definition relative_to :: "string \<Rightarrow> string \<Rightarrow> string option" where
  "relative_to dir p =
     (if dir = ''/'' then (if prefix ''/'' p \<and> p \<noteq> ''/'' then Some (tl p) else None)
      else if prefix (dir @ ''/'') p \<and> p \<noteq> dir @ ''/'' then Some (drop (length dir + 1) p)
      else None)"

definition glob_md :: "string \<Rightarrow> string list \<Rightarrow> bool \<Rightarrow> filesystem \<Rightarrow> string list" where
  "glob_md dir ignore dot fs =
     (if lookup fs dir \<noteq> Some Dir then []
      else filter
             (\<lambda>rel. matches_md dot (splitOn CHR ''/'' rel)
                    \<and> \<not> list_ex (\<lambda>pat. matches_ignore pat (splitOn CHR ''/'' rel)) ignore)
             (List.map_filter (\<lambda>entry. relative_to dir (fst entry)) fs))"

section \<open>Searching the notes\<close>

text \<open>One entry of the list that \<^verbatim>\<open>search_notes\<close> returns.\<close>

record search_result =
  path :: string
  snippet :: string

text \<open>The context snippet of one search hit, and the text shown for it.\<close>

definition context_snippet :: "host \<Rightarrow> string \<Rightarrow> string \<Rightarrow> string" where
  "context_snippet h content query =
     (let index = indexOf (toLowerCase h content) (toLowerCase h query)
      in if index \<noteq> - 1 then
           (let start = max 0 (index - 50);
                end = min (int (length content)) (index + int (length query) + 50)
            in newlines_to_spaces (substring content start end))
         else [])"

definition shown_snippet :: "string \<Rightarrow> string" where
  "shown_snippet snip = (if snip \<noteq> [] then ''...'' @ snip @ ''...'' else ''Matched in filename'')"

text \<open>
  The loop of \<^verbatim>\<open>search_notes\<close> over the files that \<^verbatim>\<open>glob\<close> returned. A file that
  cannot be read ends the loop with the error; the twentieth result ends it with the
  results.
\<close>

fun search_loop ::
  "host \<Rightarrow> process \<Rightarrow> filesystem \<Rightarrow> string \<Rightarrow> string list \<Rightarrow> search_result list
     \<Rightarrow> error + search_result list" where
  "search_loop h pr fs query [] results = Inr results"
| "search_loop h pr fs query (file # files) results =
     (case getSafePath pr file of
        Inl e \<Rightarrow> Inl e
      | Inr safePath \<Rightarrow>
          (case readFile h fs safePath of
             Inl e \<Rightarrow> Inl e
           | Inr content \<Rightarrow>
               if includes_str (toLowerCase h content) (toLowerCase h query)
                  \<or> includes_str (toLowerCase h file) (toLowerCase h query)
               then
                 (let results' = results @
                        [\<lparr>path = file, snippet = shown_snippet (context_snippet h content query)\<rparr>]
                  in if length results' \<ge> 20 then Inr results'
                     else search_loop h pr fs query files results')
               else search_loop h pr fs query files results))"

text \<open>\<^verbatim>\<open>files.slice(0, limit)\<close>: a negative limit counts from the end.\<close>

definition slice0 :: "'a list \<Rightarrow> int \<Rightarrow> 'a list" where
  "slice0 xs n = (if n < 0 then take (nat (int (length xs) + n)) xs else take (nat n) xs)"

section \<open>The tool handler\<close>

text \<open>
  The arguments of a tool call, with the types the handler casts them to; each tool reads
  the fields it needs (\<open>notePath\<close> is the argument \<^verbatim>\<open>path\<close>), and \<open>limit\<close> may be
  absent.
\<close>

record arguments =
  notePath :: string
  content :: string
  old_text :: string
  new_text :: string
  query :: string
  limit :: "int option"

text \<open>
  What a handler returns. \<open>Result\<close> is a response with one text item: a message, or
  the JSON text of a list of paths or of search results (the lists are kept as they
  are). \<open>ErrorResult prefix e\<close> is a response with \<^verbatim>\<open>isError: true\<close> whose text is the
  prefix followed by the message of \<open>e\<close>. A handler that throws instead of returning
  yields \<open>Inl\<close>: the request itself fails.
\<close>

datatype payload = Text string | Paths "string list" | Results "search_result list"

datatype tool_result = Result payload | ErrorResult string error

text \<open>
  The body of the \<^verbatim>\<open>try\<close> block: the \<^verbatim>\<open>switch\<close> over the tool name. It returns the
  outcome, a result or a thrown error, and the file system it leaves behind.
\<close>

definition tool_body ::
  "host \<Rightarrow> process \<Rightarrow> filesystem \<Rightarrow> string \<Rightarrow> arguments
     \<Rightarrow> (error + tool_result) \<times> filesystem" where
  "tool_body h pr fs name args =
     (if name = ''read_note'' then
        (case getSafePath pr (notePath args) of
           Inl e \<Rightarrow> (Inl e, fs)
         | Inr safePath \<Rightarrow>
             (case stat h fs safePath of
                Inl e \<Rightarrow> (Inr (ErrorResult ''Error reading file: '' e), fs)
              | Inr stats \<Rightarrow>
                  if \<not> isFile stats then (Inr (ErrorResult ''Error reading file: '' NotAFile), fs)
                  else (case readFile h fs safePath of
                          Inl e \<Rightarrow> (Inr (ErrorResult ''Error reading file: '' e), fs)
                        | Inr text \<Rightarrow> (Inr (Result (Text text)), fs))))
      else if name = ''write_note'' then
        (case getSafePath pr (notePath args) of
           Inl e \<Rightarrow> (Inl e, fs)
         | Inr safePath \<Rightarrow>
             (case mkdir_recursive h fs (dirname safePath) of
                Inl e \<Rightarrow> (Inl e, fs)
              | Inr fs1 \<Rightarrow>
                  (case writeFile h fs1 safePath (content args) of
                     Inl e \<Rightarrow> (Inl e, fs1)
                   | Inr fs2 \<Rightarrow>
                       (Inr (Result (Text (''Successfully wrote to '' @ notePath args))), fs2))))
      else if name = ''append_to_note'' then
        (case getSafePath pr (notePath args) of
           Inl e \<Rightarrow> (Inl e, fs)
         | Inr safePath \<Rightarrow>
             (case appendFile h fs safePath (CHR 0x0A # content args) of
                Inl e \<Rightarrow> (Inl e, fs)
              | Inr fs1 \<Rightarrow>
                  (Inr (Result (Text (''Successfully appended to '' @ notePath args))), fs1)))
      else if name = ''patch_note'' then
        (case getSafePath pr (notePath args) of
           Inl e \<Rightarrow> (Inl e, fs)
         | Inr safePath \<Rightarrow>
             (case readFile h fs safePath of
                Inl e \<Rightarrow> (Inl e, fs)
              | Inr text \<Rightarrow>
                  if \<not> includes_str text (old_text args) then (Inl PatchTargetNotFound, fs)
                  else (case writeFile h fs safePath (replace text (old_text args) (new_text args)) of
                          Inl e \<Rightarrow> (Inl e, fs)
                        | Inr fs1 \<Rightarrow>
                            (Inr (Result (Text (''Successfully patched '' @ notePath args))), fs1))))
      else if name = ''search_notes'' then
        (case search_loop h pr fs (query args)
                (glob_md (ABSOLUTE_VAULT_PATH pr) [''node_modules/**''] False fs) [] of
           Inl e \<Rightarrow> (Inl e, fs)
         | Inr results \<Rightarrow> (Inr (Result (Results results)), fs))
      else if name = ''list_notes'' then
        (let files = glob_md (ABSOLUTE_VAULT_PATH pr)
                       [''node_modules/**'', ''.git/**'', ''.obsidian/**''] False fs;
             sliced = slice0 files (case limit args of None \<Rightarrow> 50 | Some n \<Rightarrow> n)
         in (Inr (Result (Paths sliced)), fs))
      else (Inl (MethodNotFound name), fs))"

text \<open>
  The handler of \<^verbatim>\<open>CallToolRequestSchema\<close>: the \<^verbatim>\<open>try\<close> block around the switch, and
  its \<^verbatim>\<open>catch\<close>, which turns whatever was thrown into an error result.
\<close>

definition call_tool ::
  "host \<Rightarrow> process \<Rightarrow> filesystem \<Rightarrow> string \<Rightarrow> arguments
     \<Rightarrow> (error + tool_result) \<times> filesystem" where
  "call_tool h pr fs name args =
     (case tool_body h pr fs name args of
        (Inl e, fs') \<Rightarrow> (Inr (ErrorResult ''Error: '' e), fs')
      | (Inr r, fs') \<Rightarrow> (Inr r, fs'))"

text \<open>The handler of \<^verbatim>\<open>ListResourcesRequestSchema\<close>.\<close>

record resource =
  uri :: string
  name :: string
  mimeType :: string

definition list_resources :: "process \<Rightarrow> filesystem \<Rightarrow> resource list" where
  "list_resources pr fs =
     map (\<lambda>file. \<lparr>uri = ''obsidian:///'' @ file, name = file, mimeType = ''text/markdown''\<rparr>)
       (glob_md (ABSOLUTE_VAULT_PATH pr) [''node_modules/**'', ''.git/**'', ''.obsidian/**''] False fs)"

section \<open>Notions of the specification\<close>

text \<open>
  A path lies in the directory tree of \<open>dir\<close> when it is \<open>dir\<close> or below it: the pieces
  of \<open>dir\<close> are the first pieces of the path. This is the containment the specification
  means by a path inside the vault; the guard of the server compares strings instead.
\<close>

definition inside_directory :: "string \<Rightarrow> string \<Rightarrow> bool" where
  "inside_directory dir p = prefix (segments dir) (segments p)"

text \<open>
  What the search loop reads for a candidate, and when the specification counts a
  candidate as a match: the lowercased query occurs in the lowercased content or in the
  lowercased relative path.
\<close>

definition candidate_content :: "host \<Rightarrow> process \<Rightarrow> filesystem \<Rightarrow> string \<Rightarrow> error + string" where
  "candidate_content h pr fs candidate =
     (case getSafePath pr candidate of Inl e \<Rightarrow> Inl e | Inr safePath \<Rightarrow> readFile h fs safePath)"

definition is_match :: "host \<Rightarrow> string \<Rightarrow> string \<Rightarrow> string \<Rightarrow> bool" where
  "is_match h q candidate text =
     (sublist (toLowerCase h q) (toLowerCase h text)
      \<or> sublist (toLowerCase h q) (toLowerCase h candidate))"


section \<open>An example host and an example vault\<close>

text \<open>
  A host for the examples: lowercasing acts on the letters \<open>A\<close> to \<open>Z\<close>, a path is refused
  for a NUL character, for a name of more than 255 characters and for a length of 4096
  or more, and UTF-8 keeps every text.
\<close>

definition lower_char :: "char \<Rightarrow> char" where
  "lower_char c =
     (case map_of (zip ''ABCDEFGHIJKLMNOPQRSTUVWXYZ'' ''abcdefghijklmnopqrstuvwxyz'') c of
        None \<Rightarrow> c
      | Some l \<Rightarrow> l)"

definition plain_host :: host where
  "plain_host =
     \<lparr>toLowerCase = map lower_char,
      refuses = (\<lambda>p. if CHR 0x00 \<in> set p then Some ERR_INVALID_ARG_VALUE
                     else if 4096 \<le> length p \<or> list_ex (\<lambda>piece. 255 < length piece) (segments p)
                       then Some ENAMETOOLONG
                     else None),
      utf8 = (\<lambda>s. s)\<rparr>"

text \<open>A vault with twenty-one notes, each of which contains the letter \<^verbatim>\<open>x\<close>.\<close>

definition twenty_one_notes :: filesystem where
  "twenty_one_notes =
     (''/v'', Dir) # map (\<lambda>n. (''/v/'' @ n @ ''.md'', File ''x''))
       [''a'', ''b'', ''c'', ''d'', ''e'', ''f'', ''g'', ''h'', ''i'', ''j'', ''k'', ''l'', ''m'', ''n'',
        ''o'', ''p'', ''q'', ''r'', ''s'', ''t'', ''u'']"

section \<open>Facts about the string functions\<close>

lemma indexOf_ge: "- 1 \<le> indexOf s q"
  by (induction s) (auto simp: Let_def)

text \<open>\<^verbatim>\<open>includes\<close> holds exactly when the text occurs as a contiguous part.\<close>

lemma indexOf_sublist: "indexOf s q \<noteq> - 1 \<longleftrightarrow> sublist q s"
proof (induction s)
  case Nil
  show ?case by simp
next
  case (Cons c cs)
  have "- 1 \<le> indexOf cs q" by (rule indexOf_ge)
  then have "indexOf cs q + 1 \<noteq> - 1" by simp
  with Cons show ?case
    by (auto simp: Let_def sublist_Cons_right)
qed

lemma includes_str_sublist: "includes_str s q \<longleftrightarrow> sublist q s"
  by (simp add: includes_str_def indexOf_sublist)

text \<open>A position that \<^verbatim>\<open>indexOf\<close> returns is an occurrence, and the first one.\<close>

lemma indexOf_occurrence:
  "indexOf s q \<noteq> - 1 \<Longrightarrow>
     nat (indexOf s q) + length q \<le> length s \<and> take (length q) (drop (nat (indexOf s q)) s) = q"
proof (induction s)
  case Nil
  then show ?case by (simp split: if_splits)
next
  case (Cons c cs)
  show ?case
  proof (cases "prefix q (c # cs)")
    case True
    then have "length q \<le> length (c # cs)" by (rule prefix_length_le)
    moreover from True have "take (length q) (c # cs) = q" by (auto simp: prefix_def)
    ultimately show ?thesis using True by simp
  next
    case False
    with Cons.prems have ne: "indexOf cs q \<noteq> - 1"
      by (auto simp: Let_def split: if_splits)
    have ge: "0 \<le> indexOf cs q" using indexOf_ge [of cs q] ne by arith
    from False ne have eq: "indexOf (c # cs) q = indexOf cs q + 1"
      by (simp add: Let_def)
    have n: "nat (indexOf cs q + 1) = Suc (nat (indexOf cs q))" using ge by simp
    from Cons.IH [OF ne] show ?thesis
      by (simp del: indexOf.simps add: eq n)
  qed
qed

lemma indexOf_first:
  "indexOf s q \<noteq> - 1 \<Longrightarrow> j < nat (indexOf s q) \<Longrightarrow> \<not> prefix q (drop j s)"
proof (induction s arbitrary: j)
  case Nil
  then show ?case by (simp split: if_splits)
next
  case (Cons c cs)
  show ?case
  proof (cases "prefix q (c # cs)")
    case True
    with Cons.prems show ?thesis by simp
  next
    case False
    with Cons.prems have ne: "indexOf cs q \<noteq> - 1"
      by (auto simp: Let_def split: if_splits)
    have ge: "0 \<le> indexOf cs q" using indexOf_ge [of cs q] ne by arith
    from False ne have eq: "indexOf (c # cs) q = indexOf cs q + 1"
      by (simp add: Let_def)
    show ?thesis
    proof (cases j)
      case 0
      with False show ?thesis by simp
    next
      case (Suc k)
      with Cons.prems(2) eq ge have "k < nat (indexOf cs q)" by simp
      from Cons.IH [OF ne this] Suc show ?thesis by simp
    qed
  qed
qed

text \<open>A replacement text without a dollar sign is inserted as it is.\<close>

lemma getSubstitution_literal:
  "CHR ''$'' \<notin> set rep \<Longrightarrow> getSubstitution matched str pos rep = rep"
  by (induction matched str pos rep rule: getSubstitution.induct) auto

lemma replace_first_literal:
  assumes "includes_str s pat" and "CHR ''$'' \<notin> set rep"
  shows "replace s pat rep =
           take (nat (indexOf s pat)) s @ rep @ drop (nat (indexOf s pat) + length pat) s"
  using assms by (simp add: replace_def includes_str_def Let_def getSubstitution_literal)

lemma replace_absent: "\<not> includes_str s pat \<Longrightarrow> replace s pat rep = s"
  by (simp add: replace_def includes_str_def)

section \<open>Facts about paths\<close>

text \<open>Pieces of paths: cutting a path and joining its pieces are inverse to each other.\<close>

lemma splitOn_nonempty: "splitOn d s \<noteq> []"
  by (induction s) (auto split: list.splits)

lemma splitOn_no_separator: "w \<in> set (splitOn d s) \<Longrightarrow> d \<notin> set w"
  by (induction s arbitrary: w) (auto split: if_splits list.splits)

lemma splitOn_piece: "d \<notin> set w \<Longrightarrow> splitOn d w = [w]"
  by (induction w) auto

lemma splitOn_append: "d \<notin> set w \<Longrightarrow> splitOn d (w @ d # rest) = w # splitOn d rest"
  by (induction w) auto

lemma splitOn_join_segments:
  "xs \<noteq> [] \<Longrightarrow> \<forall>x \<in> set xs. CHR ''/'' \<notin> set x \<Longrightarrow> splitOn CHR ''/'' (join_segments xs) = xs"
  by (induction xs rule: join_segments.induct) (auto simp: splitOn_piece splitOn_append)

lemma segments_clean: "x \<in> set (segments p) \<Longrightarrow> x \<noteq> [] \<and> CHR ''/'' \<notin> set x"
  by (auto simp: segments_def dest: splitOn_no_separator)

lemma segments_join:
  assumes "\<forall>x \<in> set xs. x \<noteq> [] \<and> CHR ''/'' \<notin> set x"
  shows "segments (CHR ''/'' # join_segments xs) = xs"
proof (cases "xs = []")
  case True
  then show ?thesis by (simp add: segments_def)
next
  case False
  with assms have "splitOn CHR ''/'' (join_segments xs) = xs"
    by (intro splitOn_join_segments) auto
  moreover from assms have "filter (\<lambda>s. s \<noteq> []) xs = xs"
    by (intro filter_True) auto
  ultimately show ?thesis by (simp add: segments_def)
qed

lemma segments_dirname: "segments (dirname p) = butlast (segments p)"
  unfolding dirname_def
  by (rule segments_join) (auto dest: in_set_butlastD segments_clean)

lemma directories_from_join:
  "d \<in> set (directories_from cur xs) \<Longrightarrow>
     \<exists>k. 0 < k \<and> k \<le> length xs \<and> d = cur @ CHR ''/'' # join_segments (take k xs)"
proof (induction xs arbitrary: cur)
  case Nil
  then show ?case by simp
next
  case (Cons x xs)
  from Cons.prems consider "d = cur @ CHR ''/'' # x" | "d \<in> set (directories_from (cur @ CHR ''/'' # x) xs)"
    by auto
  then show ?case
  proof cases
    case 1
    then have "0 < (1::nat) \<and> 1 \<le> length (x # xs) \<and> d = cur @ CHR ''/'' # join_segments (take 1 (x # xs))"
      by simp
    then show ?thesis by blast
  next
    case 2
    from Cons.IH [OF 2] obtain k where k: "0 < k" "k \<le> length xs"
      and d: "d = (cur @ CHR ''/'' # x) @ CHR ''/'' # join_segments (take k xs)" by blast
    from k obtain y ys where tk: "take k xs = y # ys" by (cases "take k xs") auto
    have "d = cur @ CHR ''/'' # join_segments (take (Suc k) (x # xs))"
      using d tk by simp
    with k show ?thesis by (intro exI [of _ "Suc k"]) simp
  qed
qed

lemma last_directories_from:
  "xs \<noteq> [] \<Longrightarrow> cur @ CHR ''/'' # join_segments xs \<in> set (directories_from cur xs)"
proof (induction xs arbitrary: cur)
  case Nil
  then show ?case by simp
next
  case (Cons x xs)
  show ?case
  proof (cases xs)
    case Nil
    then show ?thesis by simp
  next
    case (Cons y ys)
    with Cons.IH [of "cur @ CHR ''/'' # x"] show ?thesis by simp
  qed
qed

lemma path_not_own_parent: "p \<notin> set (parent_directories p)"
proof
  assume "p \<in> set (parent_directories p)"
  then have "p \<in> set (directories_from [] (butlast (segments p)))"
    by (simp only: parent_directories_def segments_dirname)
  from directories_from_join [OF this]
  obtain k where k: "0 < k" "k \<le> length (butlast (segments p))"
    and p: "p = [] @ CHR ''/'' # join_segments (take k (butlast (segments p)))"
    by blast
  define xs where "xs = take k (butlast (segments p))"
  have len: "length xs < length (segments p)"
    using k by (simp add: xs_def)
  have "segments (CHR ''/'' # join_segments xs) = xs"
    unfolding xs_def
    by (rule segments_join) (auto dest: in_set_takeD in_set_butlastD segments_clean)
  moreover from p have "p = CHR ''/'' # join_segments xs"
    by (simp only: xs_def append_Nil)
  ultimately have "segments p = xs" by (simp only:)
  with len show False by simp
qed

lemma dirname_is_parent:
  "dirname p = ''/'' \<or> dirname p \<in> set (parent_directories p)"
proof (cases "butlast (segments p) = []")
  case True
  then show ?thesis by (simp add: dirname_def)
next
  case False
  have "parent_directories p = directories_from [] (butlast (segments p))"
    by (simp only: parent_directories_def segments_dirname)
  moreover have "dirname p = [] @ CHR ''/'' # join_segments (butlast (segments p))"
    by (simp add: dirname_def)
  ultimately show ?thesis
    using last_directories_from [OF False, of "[]"] by simp
qed

lemma parent_directories_longer: "d \<in> set (directories_from cur ss) \<Longrightarrow> length cur < length d"
proof (induction ss arbitrary: cur)
  case Nil
  then show ?case by simp
next
  case (Cons s ss)
  from Cons.prems consider "d = cur @ CHR ''/'' # s" | "d \<in> set (directories_from (cur @ CHR ''/'' # s) ss)"
    by auto
  then show ?case
  proof cases
    case 1
    then show ?thesis by simp
  next
    case 2
    from Cons.IH [OF 2] show ?thesis by simp
  qed
qed

section \<open>Facts about the file system calls\<close>

lemma lookup_root: "lookup fs ''/'' = Some Dir"
  by (simp add: lookup_def)

lemma lookup_update:
  "lookup (AList.update k v fs) q = (if q = ''/'' then Some Dir else if q = k then Some v else lookup fs q)"
  by (simp add: lookup_def update_conv')

lemma lookup_update_other: "q \<noteq> k \<Longrightarrow> lookup (AList.update k v fs) q = lookup fs q"
  by (simp add: lookup_update lookup_root)


lemma walk_dirs_update: "p \<notin> set ds \<Longrightarrow> walk_dirs (AList.update p v fs) ds = walk_dirs fs ds"
  by (induction ds) (auto simp: lookup_update_other split: option.splits node.splits)

lemma reach_update: "reach h (AList.update p v fs) p = reach h fs p"
  by (simp add: reach_def walk_dirs_update path_not_own_parent split: option.splits)


lemma readFile_Inr: "readFile h fs p = Inr c \<longleftrightarrow> reach h fs p = None \<and> lookup fs p = Some (File c)"
  by (auto simp: readFile_def split: option.splits node.splits)

lemma readFile_not_root: "readFile h fs p = Inr c \<Longrightarrow> p \<noteq> ''/''"
  by (auto simp: readFile_Inr lookup_root)

lemma readFile_update:
  "reach h fs p = None \<Longrightarrow> p \<noteq> ''/'' \<Longrightarrow> readFile h (AList.update p (File c) fs) p = Inr c"
  by (simp add: readFile_Inr reach_update lookup_update)

lemma writeFile_Inr:
  "writeFile h fs p data = Inr fs' \<longleftrightarrow>
     reach h fs p = None \<and> lookup fs p \<noteq> Some Dir \<and> fs' = AList.update p (File (utf8 h data)) fs"
  by (auto simp: writeFile_def open_for_write_def split: option.splits node.splits sum.splits)

lemma writeFile_existing:
  "readFile h fs p = Inr old \<Longrightarrow> writeFile h fs p data = Inr (AList.update p (File (utf8 h data)) fs)"
  by (simp add: writeFile_Inr readFile_Inr)

lemma appendFile_existing:
  "readFile h fs p = Inr old \<Longrightarrow>
     appendFile h fs p data = Inr (AList.update p (File (old @ utf8 h data)) fs)"
  by (simp add: appendFile_def open_for_write_def readFile_Inr)

lemma appendFile_absent:
  "reach h fs p = None \<Longrightarrow> lookup fs p = None \<Longrightarrow>
     appendFile h fs p data = Inr (AList.update p (File (utf8 h data)) fs)"
  by (simp add: appendFile_def open_for_write_def)

lemma appendFile_unreachable:
  "reach h fs p = Some e \<Longrightarrow> appendFile h fs p data = Inl (FsError e)"
  by (simp add: appendFile_def open_for_write_def)

section \<open>The path guard\<close>

text \<open>
  What the guard does check: a resolved path that does not start with the vault root is
  refused and every other one is returned, so a path it returns starts with the root;
  and a tool whose path is refused reports the refusal and leaves the file system alone.
\<close>

lemma getSafePath_refuses:
  "\<not> prefix (ABSOLUTE_VAULT_PATH pr) (path_resolve (cwd pr) [ABSOLUTE_VAULT_PATH pr, relativePath])
     \<Longrightarrow> getSafePath pr relativePath = Inl AccessDenied"
  by (simp add: getSafePath_def startsWith_def)

lemma getSafePath_accepts:
  "prefix (ABSOLUTE_VAULT_PATH pr) (path_resolve (cwd pr) [ABSOLUTE_VAULT_PATH pr, relativePath])
     \<Longrightarrow> getSafePath pr relativePath
           = Inr (path_resolve (cwd pr) [ABSOLUTE_VAULT_PATH pr, relativePath])"
  by (simp add: getSafePath_def startsWith_def)

lemma getSafePath_prefix:
  "getSafePath pr relativePath = Inr targetPath \<Longrightarrow> prefix (ABSOLUTE_VAULT_PATH pr) targetPath"
  by (auto simp: getSafePath_def startsWith_def Let_def split: if_splits)

lemma getSafePath_error: "getSafePath pr relativePath = Inl e \<Longrightarrow> e = AccessDenied"
  by (auto simp: getSafePath_def Let_def split: if_splits)

lemma refused_path_leaves_files:
  assumes "getSafePath pr (notePath args) = Inl e"
    and "tool = ''read_note'' \<or> tool = ''write_note'' \<or> tool = ''append_to_note''
         \<or> tool = ''patch_note''"
  shows "call_tool h pr fs tool args = (Inr (ErrorResult ''Error: '' AccessDenied), fs)"
  using assms getSafePath_error [OF assms(1)]
  by (auto simp: call_tool_def tool_body_def)

text \<open>
  Claim C1 says, among other things, that every relative path with a traversal sequence
  that resolves outside the vault root is rejected. With the vault \<^verbatim>\<open>/home/u/notes\<close> the
  path \<^verbatim>\<open>../notes-old/todo.md\<close> resolves to \<^verbatim>\<open>/home/u/notes-old/todo.md\<close>, which is not in
  the directory tree of the vault, and the guard returns it: as a string it starts with
  the vault root.
\<close>

theorem sibling_directory_passes_guard:
  "ABSOLUTE_VAULT_PATH \<lparr>cwd = ''/'', VAULT_PATH = ''/home/u/notes''\<rparr> = ''/home/u/notes''
   \<and> getSafePath \<lparr>cwd = ''/'', VAULT_PATH = ''/home/u/notes''\<rparr> ''../notes-old/todo.md''
       = Inr ''/home/u/notes-old/todo.md''
   \<and> \<not> inside_directory ''/home/u/notes'' ''/home/u/notes-old/todo.md''"
  by code_simp

text \<open>
  Claim C9. There is a relative path that resolves outside the directory tree of the
  vault and that the guard accepts, because the resolved path extends the vault root as a
  string: with the vault \<^verbatim>\<open>/data/vault\<close>, the path \<^verbatim>\<open>../vault2/secret.md\<close>. Through it
  \<^verbatim>\<open>read_note\<close> reads the file of the sibling directory, and \<^verbatim>\<open>write_note\<close>,
  \<^verbatim>\<open>append_to_note\<close> and \<^verbatim>\<open>patch_note\<close> change it.
\<close>

theorem sibling_directory_escape:
  "getSafePath \<lparr>cwd = ''/'', VAULT_PATH = ''/data/vault''\<rparr> ''../vault2/secret.md''
     = Inr ''/data/vault2/secret.md''
   \<and> startsWith ''/data/vault2/secret.md'' (ABSOLUTE_VAULT_PATH \<lparr>cwd = ''/'', VAULT_PATH = ''/data/vault''\<rparr>)
   \<and> \<not> inside_directory (ABSOLUTE_VAULT_PATH \<lparr>cwd = ''/'', VAULT_PATH = ''/data/vault''\<rparr>)
         ''/data/vault2/secret.md''
   \<and> call_tool plain_host \<lparr>cwd = ''/'', VAULT_PATH = ''/data/vault''\<rparr>
         [(''/data'', Dir), (''/data/vault'', Dir), (''/data/vault2'', Dir),
          (''/data/vault2/secret.md'', File ''key'')]
         ''read_note''
         \<lparr>notePath = ''../vault2/secret.md'', content = [], old_text = [], new_text = [],
            query = [], limit = None\<rparr>
       = (Inr (Result (Text ''key'')),
          [(''/data'', Dir), (''/data/vault'', Dir), (''/data/vault2'', Dir),
           (''/data/vault2/secret.md'', File ''key'')])
   \<and> call_tool plain_host \<lparr>cwd = ''/'', VAULT_PATH = ''/data/vault''\<rparr>
         [(''/data'', Dir), (''/data/vault'', Dir), (''/data/vault2'', Dir),
          (''/data/vault2/secret.md'', File ''key'')]
         ''write_note''
         \<lparr>notePath = ''../vault2/secret.md'', content = ''gone'', old_text = [], new_text = [],
            query = [], limit = None\<rparr>
       = (Inr (Result (Text ''Successfully wrote to ../vault2/secret.md'')),
          [(''/data'', Dir), (''/data/vault'', Dir), (''/data/vault2'', Dir),
           (''/data/vault2/secret.md'', File ''gone'')])
   \<and> call_tool plain_host \<lparr>cwd = ''/'', VAULT_PATH = ''/data/vault''\<rparr>
         [(''/data'', Dir), (''/data/vault'', Dir), (''/data/vault2'', Dir),
          (''/data/vault2/secret.md'', File ''key'')]
         ''append_to_note''
         \<lparr>notePath = ''../vault2/secret.md'', content = ''more'', old_text = [], new_text = [],
            query = [], limit = None\<rparr>
       = (Inr (Result (Text ''Successfully appended to ../vault2/secret.md'')),
          [(''/data'', Dir), (''/data/vault'', Dir), (''/data/vault2'', Dir),
           (''/data/vault2/secret.md'', File (''key'' @ CHR 0x0A # ''more''))])
   \<and> call_tool plain_host \<lparr>cwd = ''/'', VAULT_PATH = ''/data/vault''\<rparr>
         [(''/data'', Dir), (''/data/vault'', Dir), (''/data/vault2'', Dir),
          (''/data/vault2/secret.md'', File ''key'')]
         ''patch_note''
         \<lparr>notePath = ''../vault2/secret.md'', content = [], old_text = ''k'', new_text = ''monk'',
            query = [], limit = None\<rparr>
       = (Inr (Result (Text ''Successfully patched ../vault2/secret.md'')),
          [(''/data'', Dir), (''/data/vault'', Dir), (''/data/vault2'', Dir),
           (''/data/vault2/secret.md'', File ''monkey'')])"
  by code_simp

section \<open>Appending to a note\<close>

text \<open>
  Appending to a note that exists puts a line feed and the new text after the old
  content. When the note is absent, \<^verbatim>\<open>appendFile\<close> creates it if its directory can be
  reached, and fails if a directory above it is absent or is a file.
\<close>

lemma append_to_note_existing:
  assumes "getSafePath pr (notePath args) = Inr safePath"
    and "readFile h fs safePath = Inr old"
  shows "\<exists>fs'. call_tool h pr fs ''append_to_note'' args
                 = (Inr (Result (Text (''Successfully appended to '' @ notePath args))), fs')
               \<and> readFile h fs' safePath = Inr (old @ utf8 h (CHR 0x0A # content args))"
proof -
  from assms(2) have "reach h fs safePath = None" and "safePath \<noteq> ''/''"
    by (auto simp: readFile_Inr lookup_root)
  then show ?thesis
    using assms by (simp add: call_tool_def tool_body_def appendFile_existing readFile_update)
qed

lemma append_to_note_absent:
  assumes "getSafePath pr (notePath args) = Inr safePath"
    and "reach h fs safePath = None"
    and "lookup fs safePath = None"
  shows "call_tool h pr fs ''append_to_note'' args
           = (Inr (Result (Text (''Successfully appended to '' @ notePath args))),
              AList.update safePath (File (utf8 h (CHR 0x0A # content args))) fs)"
  using assms by (simp add: call_tool_def tool_body_def appendFile_absent)

lemma append_to_note_unreachable:
  assumes "getSafePath pr (notePath args) = Inr safePath"
    and "reach h fs safePath = Some e"
  shows "call_tool h pr fs ''append_to_note'' args = (Inr (ErrorResult ''Error: '' (FsError e)), fs)"
  using assms by (simp add: call_tool_def tool_body_def appendFile_unreachable)

text \<open>
  Claim C2 says that \<^verbatim>\<open>append_to_note\<close> on a path whose file does not exist fails and
  does not create the file. Here the vault \<^verbatim>\<open>/v\<close> is empty and \<^verbatim>\<open>new.md\<close> is appended
  to: the call reports success, and the file now exists, holding a line feed and the
  text.
\<close>

theorem append_to_note_creates_missing_file:
  "call_tool plain_host \<lparr>cwd = ''/'', VAULT_PATH = ''/v''\<rparr> [(''/v'', Dir)] ''append_to_note''
     \<lparr>notePath = ''new.md'', content = ''B'', old_text = [], new_text = [], query = [], limit = None\<rparr>
   = (Inr (Result (Text ''Successfully appended to new.md'')),
      [(''/v'', Dir), (''/v/new.md'', File (CHR 0x0A # ''B''))])"
  by code_simp

section \<open>Patching a note\<close>

text \<open>
  Claim C4. When the note exists and its content does not contain \<open>old_text\<close> as a
  contiguous part, \<^verbatim>\<open>patch_note\<close> answers with the error result for a missing patch
  target, and the file system it leaves is the one it found: nothing is written.
\<close>

theorem patch_note_target_absent:
  assumes "getSafePath pr (notePath args) = Inr safePath"
    and "readFile h fs safePath = Inr text"
    and "\<not> sublist (old_text args) text"
  shows "call_tool h pr fs ''patch_note'' args = (Inr (ErrorResult ''Error: '' PatchTargetNotFound), fs)"
  using assms by (simp add: call_tool_def tool_body_def includes_str_sublist)

theorem patch_note_target_absent_witness:
  "getSafePath \<lparr>cwd = ''/'', VAULT_PATH = ''/v''\<rparr> ''a.md'' = Inr ''/v/a.md''
   \<and> readFile plain_host [(''/v'', Dir), (''/v/a.md'', File ''hello'')] ''/v/a.md'' = Inr ''hello''
   \<and> \<not> sublist ''xyz'' ''hello''
   \<and> call_tool plain_host \<lparr>cwd = ''/'', VAULT_PATH = ''/v''\<rparr>
         [(''/v'', Dir), (''/v/a.md'', File ''hello'')]
         ''patch_note''
         \<lparr>notePath = ''a.md'', content = [], old_text = ''xyz'', new_text = ''w'', query = [], limit = None\<rparr>
       = (Inr (ErrorResult ''Error: '' PatchTargetNotFound), [(''/v'', Dir), (''/v/a.md'', File ''hello'')])"
proof -
  have a: "getSafePath \<lparr>cwd = ''/'', VAULT_PATH = ''/v''\<rparr>
             (notePath \<lparr>notePath = ''a.md'', content = [], old_text = ''xyz'', new_text = ''w'',
                query = [], limit = None\<rparr>) = Inr ''/v/a.md''"
    by code_simp
  have b: "readFile plain_host [(''/v'', Dir), (''/v/a.md'', File ''hello'')] ''/v/a.md'' = Inr ''hello''"
    by code_simp
  have c: "\<not> sublist (old_text \<lparr>notePath = ''a.md'', content = [], old_text = ''xyz'', new_text = ''w'',
                query = [], limit = None\<rparr>) ''hello''"
    by code_simp
  from patch_note_target_absent [OF a b c] a b c show ?thesis by simp
qed

text \<open>
  When \<open>old_text\<close> occurs and \<open>new_text\<close> has no dollar sign, the first occurrence is
  replaced by \<open>new_text\<close> as it is, and the rest of the content stays. The example of
  the specification is an instance.
\<close>

lemma patch_note_literal:
  assumes "getSafePath pr (notePath args) = Inr safePath"
    and "readFile h fs safePath = Inr text"
    and "sublist (old_text args) text"
    and "CHR ''$'' \<notin> set (new_text args)"
  shows "\<exists>fs'. call_tool h pr fs ''patch_note'' args
                 = (Inr (Result (Text (''Successfully patched '' @ notePath args))), fs')
               \<and> readFile h fs' safePath
                   = Inr (utf8 h (take (nat (indexOf text (old_text args))) text @ new_text args
                          @ drop (nat (indexOf text (old_text args)) + length (old_text args)) text))"
proof -
  from assms(3) have inc: "includes_str text (old_text args)"
    by (simp add: includes_str_sublist)
  from assms(2) have ok: "reach h fs safePath = None" and ne: "safePath \<noteq> ''/''"
    by (auto simp: readFile_Inr lookup_root)
  show ?thesis
    using assms(1,2) inc ne ok
    by (simp add: call_tool_def tool_body_def writeFile_existing [OF assms(2)]
        readFile_update replace_first_literal [OF inc assms(4)])
qed

lemma patch_note_spec_example:
  "call_tool plain_host \<lparr>cwd = ''/'', VAULT_PATH = ''/v''\<rparr> [(''/v'', Dir), (''/v/a.md'', File ''x x'')]
     ''patch_note''
     \<lparr>notePath = ''a.md'', content = [], old_text = ''x'', new_text = ''y'', query = [], limit = None\<rparr>
   = (Inr (Result (Text ''Successfully patched a.md'')), [(''/v'', Dir), (''/v/a.md'', File ''y x'')])"
  by code_simp

text \<open>
  Claim C3 says that the first occurrence of \<open>old_text\<close> is replaced by \<open>new_text\<close>
  literally, for every value of \<open>new_text\<close>. Here the content is \<^verbatim>\<open>x x\<close>, \<open>old_text\<close> is
  \<^verbatim>\<open>x\<close> and \<open>new_text\<close> is \<^verbatim>\<open>$&\<close>: the call reports success and the content is still
  \<^verbatim>\<open>x x\<close>, because \<^verbatim>\<open>replace\<close> reads \<^verbatim>\<open>$&\<close> as the matched text.
\<close>

theorem patch_note_expands_dollar_patterns:
  "call_tool plain_host \<lparr>cwd = ''/'', VAULT_PATH = ''/v''\<rparr> [(''/v'', Dir), (''/v/a.md'', File ''x x'')]
     ''patch_note''
     \<lparr>notePath = ''a.md'', content = [], old_text = ''x'', new_text = ''$&'', query = [], limit = None\<rparr>
   = (Inr (Result (Text ''Successfully patched a.md'')), [(''/v'', Dir), (''/v/a.md'', File ''x x'')])"
  by code_simp

section \<open>Unknown tools\<close>

text \<open>
  The \<^verbatim>\<open>default\<close> branch throws the protocol error for an unknown method, but it does
  so inside the \<^verbatim>\<open>try\<close> block, so the \<^verbatim>\<open>catch\<close> of the handler receives it like any
  other error: the handler returns for every tool name, known or not.
\<close>

lemma unknown_tool_is_caught:
  assumes "tool \<notin> {''read_note'', ''write_note'', ''append_to_note'', ''patch_note'',
                     ''search_notes'', ''list_notes''}"
  shows "call_tool h pr fs tool args = (Inr (ErrorResult ''Error: '' (MethodNotFound tool)), fs)"
  using assms by (simp add: call_tool_def tool_body_def)

lemma call_tool_returns: "\<exists>r. fst (call_tool h pr fs tool args) = Inr r"
  by (auto simp: call_tool_def split: prod.splits sum.splits)

text \<open>
  Claim C5 says that an unknown tool name makes the request itself fail, unlike the
  errors of the known tools. Here the tool \<^verbatim>\<open>delete_note\<close>, which the server does not
  have, is called: on every host the handler returns an ordinary result with the error
  flag, of the same shape as the results for the errors of known tools.
\<close>

theorem unknown_tool_returns_error_result:
  "call_tool h \<lparr>cwd = ''/'', VAULT_PATH = ''/v''\<rparr> [(''/v'', Dir)] ''delete_note''
     \<lparr>notePath = ''a.md'', content = [], old_text = [], new_text = [], query = [], limit = None\<rparr>
   = (Inr (ErrorResult ''Error: '' (MethodNotFound ''delete_note'')), [(''/v'', Dir)])"
  by (simp add: call_tool_def tool_body_def)

section \<open>The limit on search results\<close>

lemma search_loop_length:
  "search_loop h pr fs q files results = Inr out \<Longrightarrow> length results < 20 \<Longrightarrow> length out \<le> 20"
proof (induction files arbitrary: results)
  case Nil
  then show ?case by simp
next
  case (Cons candidate rest)
  from Cons.prems show ?case
    by (auto simp: Let_def split: sum.splits if_splits dest!: Cons.IH)
qed

lemma search_loop_stops:
  "search_loop h pr fs q files results = Inr out \<Longrightarrow> length results < 20 \<Longrightarrow> length out = 20
     \<Longrightarrow> search_loop h pr fs q (files @ later) results = Inr out"
proof (induction files arbitrary: results)
  case Nil
  then show ?case by simp
next
  case (Cons candidate rest)
  from Cons.prems show ?case
    by (auto simp: Let_def split: sum.splits if_splits intro!: Cons.IH)
qed

text \<open>
  Claim C8. The list of results that \<^verbatim>\<open>search_notes\<close> returns has at most twenty
  entries, whatever the query and the vault. The candidates are taken in the order of
  the scan, and once twenty results are there the scan is over: were more candidates to
  follow, readable or not, the outcome would be the same.
\<close>

theorem search_notes_at_most_20:
  assumes "call_tool h pr fs ''search_notes'' args = (Inr (Result (Results found)), fs')"
  shows "length found \<le> 20
         \<and> (length found = 20 \<longrightarrow>
              (\<forall>later. search_loop h pr fs (query args)
                        (glob_md (ABSOLUTE_VAULT_PATH pr) [''node_modules/**''] False fs @ later) []
                      = Inr found))"
proof -
  from assms have run:
    "search_loop h pr fs (query args) (glob_md (ABSOLUTE_VAULT_PATH pr) [''node_modules/**''] False fs) []
       = Inr found"
    by (auto simp: call_tool_def tool_body_def split: sum.splits)
  have "length found \<le> 20" using search_loop_length [OF run] by simp
  moreover have "length found = 20 \<Longrightarrow>
      search_loop h pr fs (query args)
        (glob_md (ABSOLUTE_VAULT_PATH pr) [''node_modules/**''] False fs @ later) [] = Inr found" for later
    using search_loop_stops [OF run] by simp
  ultimately show ?thesis by blast
qed

theorem search_notes_at_most_20_witness:
  "call_tool plain_host \<lparr>cwd = ''/'', VAULT_PATH = ''/v''\<rparr> twenty_one_notes ''search_notes''
     \<lparr>notePath = [], content = [], old_text = [], new_text = [], query = ''x'', limit = None\<rparr>
   = (Inr (Result (Results (map (\<lambda>n. \<lparr>path = n @ ''.md'', snippet = ''...x...''\<rparr>)
        [''a'', ''b'', ''c'', ''d'', ''e'', ''f'', ''g'', ''h'', ''i'', ''j'', ''k'', ''l'', ''m'', ''n'',
         ''o'', ''p'', ''q'', ''r'', ''s'', ''t'']))), twenty_one_notes)
   \<and> length (map (\<lambda>n. \<lparr>path = n @ ''.md'', snippet = ''...x...''\<rparr>)
        [''a'', ''b'', ''c'', ''d'', ''e'', ''f'', ''g'', ''h'', ''i'', ''j'', ''k'', ''l'', ''m'', ''n'',
         ''o'', ''p'', ''q'', ''r'', ''s'', ''t'']) \<le> 20
   \<and> length (glob_md (ABSOLUTE_VAULT_PATH \<lparr>cwd = ''/'', VAULT_PATH = ''/v''\<rparr>)
               [''node_modules/**''] False twenty_one_notes) = 21
   \<and> search_loop plain_host \<lparr>cwd = ''/'', VAULT_PATH = ''/v''\<rparr> twenty_one_notes ''x''
         (glob_md (ABSOLUTE_VAULT_PATH \<lparr>cwd = ''/'', VAULT_PATH = ''/v''\<rparr>)
            [''node_modules/**''] False twenty_one_notes @ [''missing.md'']) []
       = Inr (map (\<lambda>n. \<lparr>path = n @ ''.md'', snippet = ''...x...''\<rparr>)
        [''a'', ''b'', ''c'', ''d'', ''e'', ''f'', ''g'', ''h'', ''i'', ''j'', ''k'', ''l'', ''m'', ''n'',
         ''o'', ''p'', ''q'', ''r'', ''s'', ''t''])"
proof -
  let ?pr = "\<lparr>cwd = ''/'', VAULT_PATH = ''/v''\<rparr>"
  let ?args = "\<lparr>notePath = [], content = [], old_text = [], new_text = [], query = ''x'',
                 limit = None\<rparr>"
  let ?found = "map (\<lambda>n. \<lparr>path = n @ ''.md'', snippet = ''...x...''\<rparr>)
        [''a'', ''b'', ''c'', ''d'', ''e'', ''f'', ''g'', ''h'', ''i'', ''j'', ''k'', ''l'', ''m'', ''n'',
         ''o'', ''p'', ''q'', ''r'', ''s'', ''t'']"
  have run: "call_tool plain_host ?pr twenty_one_notes ''search_notes'' ?args
               = (Inr (Result (Results ?found)), twenty_one_notes)"
    by code_simp
  have every: "length (glob_md (ABSOLUTE_VAULT_PATH ?pr) [''node_modules/**''] False twenty_one_notes) = 21"
    by code_simp
  have full: "length ?found = 20" by simp
  note cap = search_notes_at_most_20 [OF run]
  from cap have short: "length ?found \<le> 20" by (rule conjunct1)
  from cap full have "search_loop plain_host ?pr twenty_one_notes (query ?args)
         (glob_md (ABSOLUTE_VAULT_PATH ?pr) [''node_modules/**''] False twenty_one_notes
            @ [''missing.md'']) [] = Inr ?found"
    by blast
  then have stop: "search_loop plain_host ?pr twenty_one_notes ''x''
         (glob_md (ABSOLUTE_VAULT_PATH ?pr) [''node_modules/**''] False twenty_one_notes
            @ [''missing.md'']) [] = Inr ?found"
    by simp
  from run short every stop show ?thesis by (intro conjI)
qed

section \<open>Matches and snippets\<close>

text \<open>
  The empty text occurs at position 0, and a stretch that lies inside a text is cut out
  as it is.
\<close>

lemma indexOf_empty: "indexOf s [] = 0"
  by (cases s) simp_all

lemma substring_inside:
  assumes "0 \<le> a" and "a \<le> b" and "b \<le> int (length s)"
  shows "substring s a b = take (nat (b - a)) (drop (nat a) s)"
  using assms by (simp add: substring_def Let_def min_def max_def)

text \<open>
  For a match in the content, the snippet is cut out of the content between the two
  positions that the loop computes from the position of the match in the lowercased
  content; it is shown between ellipsis marks unless it is empty. Without a match in the
  content the marker for a match in the file name is shown.
\<close>

lemma context_snippet_match:
  assumes "sublist (toLowerCase h q) (toLowerCase h body)"
  shows "context_snippet h body q
           = newlines_to_spaces
               (substring body (max 0 (indexOf (toLowerCase h body) (toLowerCase h q) - 50))
                  (min (int (length body))
                     (indexOf (toLowerCase h body) (toLowerCase h q) + int (length q) + 50)))"
  using assms by (simp add: context_snippet_def Let_def indexOf_sublist)

lemma shown_snippet_nonempty: "snip \<noteq> [] \<Longrightarrow> shown_snippet snip = ''...'' @ snip @ ''...''"
  by (simp add: shown_snippet_def)

lemma context_snippet_filename_only:
  "\<not> sublist (toLowerCase h q) (toLowerCase h body)
     \<Longrightarrow> shown_snippet (context_snippet h body q) = ''Matched in filename''"
  by (simp add: context_snippet_def shown_snippet_def indexOf_sublist)

text \<open>
  Where lowercasing keeps the length of the content and of the query, the match lies
  inside the content, and the snippet is not empty unless both are.
\<close>

lemma context_snippet_content_match:
  assumes hit: "sublist (toLowerCase h q) (toLowerCase h body)"
    and keeps: "length (toLowerCase h body) = length body" "length (toLowerCase h q) = length q"
    and nonempty: "q \<noteq> [] \<or> body \<noteq> []"
  defines "i \<equiv> indexOf (toLowerCase h body) (toLowerCase h q)"
  defines "a \<equiv> max 0 (i - 50)"
  defines "b \<equiv> min (int (length body)) (i + int (length q) + 50)"
  shows "shown_snippet (context_snippet h body q)
           = ''...'' @ newlines_to_spaces (take (nat (b - a)) (drop (nat a) body)) @ ''...''"
proof -
  have found: "i \<noteq> - 1" using hit by (simp add: i_def indexOf_sublist)
  have ge: "0 \<le> i" using indexOf_ge [of "toLowerCase h body" "toLowerCase h q"] found
    by (simp add: i_def)
  have "nat i + length q \<le> length body"
    using indexOf_occurrence [of "toLowerCase h body" "toLowerCase h q"] found keeps
    by (simp add: i_def)
  with ge have fits: "i + int (length q) \<le> int (length body)" by linarith
  have a0: "0 \<le> a" and ai: "a \<le> i" using ge by (simp_all add: a_def)
  have ib: "i \<le> b" and bn: "b \<le> int (length body)" using fits by (simp_all add: b_def)
  have sub: "substring body a b = take (nat (b - a)) (drop (nat a) body)"
    using a0 ai ib bn by (intro substring_inside) simp_all
  have "a < b"
  proof (cases "q = []")
    case True
    with nonempty have "body \<noteq> []" by simp
    moreover from True keeps(2) have "i = 0" by (simp add: i_def indexOf_empty)
    ultimately show ?thesis by (simp add: a_def b_def)
  next
    case False
    then have "0 < int (length q)" by simp
    with fits ai have "a < int (length body)" and "a < i + int (length q) + 50" by linarith+
    then show ?thesis by (simp add: b_def)
  qed
  then have "take (nat (b - a)) (drop (nat a) body) \<noteq> []"
    using a0 bn by auto
  then have "newlines_to_spaces (take (nat (b - a)) (drop (nat a) body)) \<noteq> []"
    by (simp add: newlines_to_spaces_def)
  moreover have "context_snippet h body q = newlines_to_spaces (take (nat (b - a)) (drop (nat a) body))"
    using context_snippet_match [OF hit] sub by (simp add: i_def a_def b_def)
  ultimately show ?thesis by (simp add: shown_snippet_nonempty)
qed

text \<open>
  When every candidate can be read, the loop returns, in the order of the scan, the first
  twenty candidates that match, each with its snippet.
\<close>

lemma search_loop_readable:
  assumes "\<forall>f \<in> set files. \<exists>body. candidate_content h pr fs f = Inr body"
    and "length results < 20"
  shows "search_loop h pr fs q files results
           = Inr (take 20 (results @
               map (\<lambda>f. \<lparr>path = f,
                          snippet = shown_snippet
                            (context_snippet h (projr (candidate_content h pr fs f)) q)\<rparr>)
                 (filter (\<lambda>f. is_match h q f (projr (candidate_content h pr fs f))) files)))"
  using assms
proof (induction files arbitrary: results)
  case Nil
  then show ?case by simp
next
  case (Cons candidate rest)
  from Cons.prems(1) obtain body where body: "candidate_content h pr fs candidate = Inr body"
    by auto
  then obtain safePath where sp: "getSafePath pr candidate = Inr safePath"
    and rd: "readFile h fs safePath = Inr body"
    by (auto simp: candidate_content_def split: sum.splits)
  from Cons.prems(1) have rest: "\<forall>f \<in> set rest. \<exists>body. candidate_content h pr fs f = Inr body"
    by simp
  show ?case
  proof (cases "is_match h q candidate body")
    case False
    with sp rd body Cons.IH [OF rest Cons.prems(2)] show ?thesis
      by (simp add: is_match_def includes_str_sublist)
  next
    case True
    show ?thesis
    proof (cases "length results = 19")
      case True
      with \<open>is_match h q candidate body\<close> sp rd body show ?thesis
        by (simp add: is_match_def includes_str_sublist Let_def)
    next
      case False
      with Cons.prems(2) have "length (results @ [\<lparr>path = candidate,
          snippet = shown_snippet (context_snippet h body q)\<rparr>]) < 20" by simp
      from Cons.IH [OF rest this] True sp rd body False Cons.prems(2) show ?thesis
        by (simp add: is_match_def includes_str_sublist Let_def)
    qed
  qed
qed

text \<open>
  The snippet of an empty note for the empty query is empty, and the loop takes an empty
  snippet for the absence of a match in the content.
\<close>

lemma context_snippet_both_empty:
  "toLowerCase h [] = [] \<Longrightarrow>
     sublist (toLowerCase h []) (toLowerCase h [])
     \<and> shown_snippet (context_snippet h [] []) = ''Matched in filename''"
  by (simp add: context_snippet_def shown_snippet_def substring_def newlines_to_spaces_def)

text \<open>
  Two hosts whose lowercasing goes beyond the letters \<open>A\<close> to \<open>Z\<close>. On the first it maps
  the code unit 0xC9 to 0xE9, and a note with the one is found by a query for the other.
  On the second it turns one code unit, written 0xDD here, into two, as the hosts of the
  source do with U+0130: the position of the match in the lowercased content then lies
  beyond the end of the content, the snippet is empty, and the note is reported with the
  marker for a match in the file name.
\<close>

lemma lowercase_beyond_ascii:
  "call_tool
     (plain_host\<lparr>toLowerCase := map (\<lambda>c. if c = CHR 0xC9 then CHR 0xE9 else lower_char c)\<rparr>)
     \<lparr>cwd = ''/'', VAULT_PATH = ''/v''\<rparr>
     [(''/v'', Dir), (''/v/a.md'', File [CHR 0xC9])]
     ''search_notes''
     \<lparr>notePath = [], content = [], old_text = [], new_text = [], query = [CHR 0xE9], limit = None\<rparr>
   = (Inr (Result (Results [\<lparr>path = ''a.md'', snippet = ''...'' @ [CHR 0xC9] @ ''...''\<rparr>])),
      [(''/v'', Dir), (''/v/a.md'', File [CHR 0xC9])])"
  by code_simp

lemma lowercase_that_lengthens:
  "call_tool
     (plain_host\<lparr>toLowerCase := concat \<circ> map (\<lambda>c. if c = CHR 0xDD then ''i.'' else [lower_char c])\<rparr>)
     \<lparr>cwd = ''/'', VAULT_PATH = ''/v''\<rparr>
     [(''/v'', Dir), (''/v/a.md'', File (replicate 60 (CHR 0xDD) @ ''x''))]
     ''search_notes''
     \<lparr>notePath = [], content = [], old_text = [], new_text = [], query = ''x'', limit = None\<rparr>
   = (Inr (Result (Results [\<lparr>path = ''a.md'', snippet = ''Matched in filename''\<rparr>])),
      [(''/v'', Dir), (''/v/a.md'', File (replicate 60 (CHR 0xDD) @ ''x''))])"
  by code_simp

text \<open>
  Claim C7 says that, for every query and candidate, the candidate is reported exactly
  when the query occurs in its content or its path, and that a match in the content is
  shown as the content around the first occurrence between ellipsis marks. In the vault
  of twenty-one notes the note \<^verbatim>\<open>u.md\<close> contains the query \<^verbatim>\<open>x\<close> and is not reported, as
  twenty results came before it. And in a vault with one empty note the empty query
  occurs in the content, at position 0, and the note is reported with the marker for a
  match in the file name instead.
\<close>

theorem search_notes_skips_matches:
  "candidate_content plain_host \<lparr>cwd = ''/'', VAULT_PATH = ''/v''\<rparr> twenty_one_notes ''u.md'' = Inr ''x''
   \<and> includes_str (toLowerCase plain_host ''x'') (toLowerCase plain_host ''x'')
   \<and> ''u.md'' \<in> set (glob_md (ABSOLUTE_VAULT_PATH \<lparr>cwd = ''/'', VAULT_PATH = ''/v''\<rparr>)
                        [''node_modules/**''] False twenty_one_notes)
   \<and> call_tool plain_host \<lparr>cwd = ''/'', VAULT_PATH = ''/v''\<rparr> twenty_one_notes ''search_notes''
       \<lparr>notePath = [], content = [], old_text = [], new_text = [], query = ''x'', limit = None\<rparr>
     = (Inr (Result (Results (map (\<lambda>n. \<lparr>path = n @ ''.md'', snippet = ''...x...''\<rparr>)
        [''a'', ''b'', ''c'', ''d'', ''e'', ''f'', ''g'', ''h'', ''i'', ''j'', ''k'', ''l'', ''m'', ''n'',
         ''o'', ''p'', ''q'', ''r'', ''s'', ''t'']))), twenty_one_notes)
   \<and> ''u.md'' \<notin> path ` set (map (\<lambda>n. \<lparr>path = n @ ''.md'', snippet = ''...x...''\<rparr>)
        [''a'', ''b'', ''c'', ''d'', ''e'', ''f'', ''g'', ''h'', ''i'', ''j'', ''k'', ''l'', ''m'', ''n'',
         ''o'', ''p'', ''q'', ''r'', ''s'', ''t''])
   \<and> includes_str (toLowerCase plain_host []) (toLowerCase plain_host [])
   \<and> call_tool plain_host \<lparr>cwd = ''/'', VAULT_PATH = ''/v''\<rparr>
        [(''/v'', Dir), (''/v/empty.md'', File [])]
        ''search_notes''
        \<lparr>notePath = [], content = [], old_text = [], new_text = [], query = [], limit = None\<rparr>
      = (Inr (Result (Results [\<lparr>path = ''empty.md'', snippet = ''Matched in filename''\<rparr>])),
         [(''/v'', Dir), (''/v/empty.md'', File [])])"
  by code_simp

text \<open>
  Claim C7, amended. On every host, whatever its lowercasing does: for every query, when
  every candidate can be read, \<^verbatim>\<open>search_notes\<close> reports, in the order of the scan, the
  first twenty candidates for which the lowercased query occurs in the lowercased
  content or in the lowercased relative path. For a match in the content, the snippet is
  the content from fifty positions before the position of the first occurrence in the
  lowercased content to fifty positions after it plus the length of the query, both
  limited to the content, line feeds replaced by spaces; it is shown between ellipsis
  marks when it is not empty. It is not empty, and is the stretch of the content between
  these positions, where lowercasing keeps the lengths of the content and of the query
  and they are not both empty. Without a match in the content the snippet is
  \<^verbatim>\<open>Matched in filename\<close>.
\<close>

theorem search_notes_matches_and_snippets:
  assumes "\<forall>f \<in> set (glob_md (ABSOLUTE_VAULT_PATH pr) [''node_modules/**''] False fs).
             \<exists>body. candidate_content h pr fs f = Inr body"
  shows "call_tool h pr fs ''search_notes'' args
           = (Inr (Result (Results (take 20
                (map (\<lambda>f. \<lparr>path = f,
                           snippet = shown_snippet
                             (context_snippet h (projr (candidate_content h pr fs f)) (query args))\<rparr>)
                   (filter (\<lambda>f. is_match h (query args) f (projr (candidate_content h pr fs f)))
                      (glob_md (ABSOLUTE_VAULT_PATH pr) [''node_modules/**''] False fs)))))), fs)
         \<and> (\<forall>body q. sublist (toLowerCase h q) (toLowerCase h body) \<longrightarrow>
               (let i = indexOf (toLowerCase h body) (toLowerCase h q);
                    cut = newlines_to_spaces
                            (substring body (max 0 (i - 50))
                               (min (int (length body)) (i + int (length q) + 50)))
                in context_snippet h body q = cut
                   \<and> (cut \<noteq> [] \<longrightarrow> shown_snippet (context_snippet h body q) = ''...'' @ cut @ ''...'')))
         \<and> (\<forall>body q. sublist (toLowerCase h q) (toLowerCase h body)
                    \<and> length (toLowerCase h body) = length body
                    \<and> length (toLowerCase h q) = length q
                    \<and> (q \<noteq> [] \<or> body \<noteq> []) \<longrightarrow>
               (let i = indexOf (toLowerCase h body) (toLowerCase h q);
                    a = max 0 (i - 50);
                    b = min (int (length body)) (i + int (length q) + 50)
                in shown_snippet (context_snippet h body q)
                     = ''...'' @ newlines_to_spaces (take (nat (b - a)) (drop (nat a) body)) @ ''...''))
         \<and> (\<forall>body q. \<not> sublist (toLowerCase h q) (toLowerCase h body) \<longrightarrow>
               shown_snippet (context_snippet h body q) = ''Matched in filename'')"
proof (intro conjI allI impI)
  show "call_tool h pr fs ''search_notes'' args
           = (Inr (Result (Results (take 20
                (map (\<lambda>f. \<lparr>path = f,
                           snippet = shown_snippet
                             (context_snippet h (projr (candidate_content h pr fs f)) (query args))\<rparr>)
                   (filter (\<lambda>f. is_match h (query args) f (projr (candidate_content h pr fs f)))
                      (glob_md (ABSOLUTE_VAULT_PATH pr) [''node_modules/**''] False fs)))))), fs)"
    using search_loop_readable [OF assms, of "[]" "query args"]
    by (simp add: call_tool_def tool_body_def)
next
  fix body q
  assume hit: "sublist (toLowerCase h q) (toLowerCase h body)"
  show "let i = indexOf (toLowerCase h body) (toLowerCase h q);
            cut = newlines_to_spaces
                    (substring body (max 0 (i - 50))
                       (min (int (length body)) (i + int (length q) + 50)))
        in context_snippet h body q = cut
           \<and> (cut \<noteq> [] \<longrightarrow> shown_snippet (context_snippet h body q) = ''...'' @ cut @ ''...'')"
    using context_snippet_match [OF hit] by (simp add: Let_def shown_snippet_nonempty)
next
  fix body q
  assume "sublist (toLowerCase h q) (toLowerCase h body)
            \<and> length (toLowerCase h body) = length body
            \<and> length (toLowerCase h q) = length q
            \<and> (q \<noteq> [] \<or> body \<noteq> [])"
  then show "let i = indexOf (toLowerCase h body) (toLowerCase h q);
                 a = max 0 (i - 50);
                 b = min (int (length body)) (i + int (length q) + 50)
             in shown_snippet (context_snippet h body q)
                  = ''...'' @ newlines_to_spaces (take (nat (b - a)) (drop (nat a) body)) @ ''...''"
    unfolding Let_def by (intro context_snippet_content_match) simp_all
next
  fix body q
  assume "\<not> sublist (toLowerCase h q) (toLowerCase h body)"
  then show "shown_snippet (context_snippet h body q) = ''Matched in filename''"
    by (rule context_snippet_filename_only)
qed

theorem search_notes_matches_and_snippets_witness:
  "glob_md (ABSOLUTE_VAULT_PATH \<lparr>cwd = ''/'', VAULT_PATH = ''/v''\<rparr>) [''node_modules/**''] False
       [(''/v'', Dir), (''/v/a.md'', File ''hello world''), (''/v/Hello.md'', File ''other''),
        (''/v/c.md'', File ''none'')]
     = [''a.md'', ''Hello.md'', ''c.md'']
   \<and> call_tool plain_host \<lparr>cwd = ''/'', VAULT_PATH = ''/v''\<rparr>
        [(''/v'', Dir), (''/v/a.md'', File ''hello world''), (''/v/Hello.md'', File ''other''),
         (''/v/c.md'', File ''none'')]
        ''search_notes''
        \<lparr>notePath = [], content = [], old_text = [], new_text = [], query = ''hello'', limit = None\<rparr>
      = (Inr (Result (Results [\<lparr>path = ''a.md'', snippet = ''...hello world...''\<rparr>,
                               \<lparr>path = ''Hello.md'', snippet = ''Matched in filename''\<rparr>])),
         [(''/v'', Dir), (''/v/a.md'', File ''hello world''), (''/v/Hello.md'', File ''other''),
          (''/v/c.md'', File ''none'')])"
proof -
  let ?pr = "\<lparr>cwd = ''/'', VAULT_PATH = ''/v''\<rparr>"
  let ?fs = "[(''/v'', Dir), (''/v/a.md'', File ''hello world''), (''/v/Hello.md'', File ''other''),
              (''/v/c.md'', File ''none'')]"
  let ?args = "\<lparr>notePath = [], content = [], old_text = [], new_text = [], query = ''hello'',
                 limit = None\<rparr>"
  have g: "glob_md (ABSOLUTE_VAULT_PATH ?pr) [''node_modules/**''] False ?fs = [''a.md'', ''Hello.md'', ''c.md'']"
    by code_simp
  have c1: "candidate_content plain_host ?pr ?fs ''a.md'' = Inr ''hello world''" by code_simp
  have c2: "candidate_content plain_host ?pr ?fs ''Hello.md'' = Inr ''other''" by code_simp
  have c3: "candidate_content plain_host ?pr ?fs ''c.md'' = Inr ''none''" by code_simp
  have readable: "\<forall>f \<in> set (glob_md (ABSOLUTE_VAULT_PATH ?pr) [''node_modules/**''] False ?fs).
                    \<exists>body. candidate_content plain_host ?pr ?fs f = Inr body"
    using c1 c2 c3 by (simp add: g)
  have outcome: "take 20
        (map (\<lambda>f. \<lparr>path = f,
                   snippet = shown_snippet
                     (context_snippet plain_host (projr (candidate_content plain_host ?pr ?fs f))
                        (query ?args))\<rparr>)
           (filter (\<lambda>f. is_match plain_host (query ?args) f (projr (candidate_content plain_host ?pr ?fs f)))
              (glob_md (ABSOLUTE_VAULT_PATH ?pr) [''node_modules/**''] False ?fs)))
      = [\<lparr>path = ''a.md'', snippet = ''...hello world...''\<rparr>,
         \<lparr>path = ''Hello.md'', snippet = ''Matched in filename''\<rparr>]"
    by code_simp
  from search_notes_matches_and_snippets [OF readable, of ?args, THEN conjunct1] outcome g
  show ?thesis by simp
qed

section \<open>Writing and reading a note\<close>







text \<open>
  Two more ways for \<^verbatim>\<open>write_note\<close> to fail: a file stands where a directory is needed,
  or the host refuses the path, as it does for a NUL character.
\<close>

lemma write_note_below_a_file:
  "call_tool plain_host \<lparr>cwd = ''/'', VAULT_PATH = ''/v''\<rparr> [(''/v'', Dir), (''/v/a.md'', File ''A'')]
     ''write_note''
     \<lparr>notePath = ''a.md/b.md'', content = ''text'', old_text = [], new_text = [], query = [], limit = None\<rparr>
   = (Inr (ErrorResult ''Error: '' (FsError EEXIST)), [(''/v'', Dir), (''/v/a.md'', File ''A'')])"
  by code_simp

lemma write_note_refused_path:
  "call_tool plain_host \<lparr>cwd = ''/'', VAULT_PATH = ''/v''\<rparr> [(''/v'', Dir)]
     ''write_note''
     \<lparr>notePath = [CHR ''a'', CHR 0x00], content = ''text'', old_text = [], new_text = [], query = [],
        limit = None\<rparr>
   = (Inr (ErrorResult ''Error: '' (FsError ERR_INVALID_ARG_VALUE)), [(''/v'', Dir)])"
  by code_simp

text \<open>
  A host on which UTF-8 replaces a code unit, written 0xD8 here, as the hosts of the
  source replace a lone surrogate: the file holds the text with the replacement.
\<close>

lemma write_note_replaces_lone_surrogate:
  "call_tool (plain_host\<lparr>utf8 := map (\<lambda>c. if c = CHR 0xD8 then CHR 0xFD else c)\<rparr>)
     \<lparr>cwd = ''/'', VAULT_PATH = ''/v''\<rparr> [(''/v'', Dir)] ''write_note''
     \<lparr>notePath = ''a.md'', content = [CHR ''a'', CHR 0xD8], old_text = [], new_text = [], query = [],
        limit = None\<rparr>
   = (Inr (Result (Text ''Successfully wrote to a.md'')),
      [(''/v'', Dir), (''/v/a.md'', File [CHR ''a'', CHR 0xFD])])"
  by code_simp



section \<open>The three enumerations\<close>

text \<open>
  Without the option \<^verbatim>\<open>dot\<close>, \<^verbatim>\<open>glob\<close> returns no path with a piece that begins with a
  dot, so the ignore patterns for \<^verbatim>\<open>.git\<close> and \<^verbatim>\<open>.obsidian\<close> exclude nothing that it
  would return. With the option they would.
\<close>

lemma matches_ignore_directory:
  "matches_ignore ''.git/**'' pieces = prefix [''.git''] pieces"
  "matches_ignore ''.obsidian/**'' pieces = prefix [''.obsidian''] pieces"
  "matches_ignore ''node_modules/**'' pieces = prefix [''node_modules''] pieces"
  by (simp_all add: matches_ignore_def)

lemma matches_md_no_hidden_piece:
  "matches_md False pieces \<Longrightarrow> piece \<in> set pieces \<Longrightarrow> \<not> hidden piece"
  by (auto simp: matches_md_def list_ex_iff)

lemma matches_md_not_in_hidden_directory:
  assumes "matches_md False pieces"
  shows "\<not> matches_ignore ''.git/**'' pieces" and "\<not> matches_ignore ''.obsidian/**'' pieces"
proof -
  have "\<not> prefix [d] pieces" if "hidden d" for d
  proof
    assume "prefix [d] pieces"
    then have "d \<in> set pieces" by (auto simp: prefix_def)
    with assms that show False by (auto dest: matches_md_no_hidden_piece)
  qed
  from this [of "''.git''"] this [of "''.obsidian''"]
  show "\<not> matches_ignore ''.git/**'' pieces" and "\<not> matches_ignore ''.obsidian/**'' pieces"
    by (simp_all add: matches_ignore_directory hidden_def)
qed

lemma glob_md_same_without_dot:
  "glob_md dir [''node_modules/**''] False fs
     = glob_md dir [''node_modules/**'', ''.git/**'', ''.obsidian/**''] False fs"
  unfolding glob_md_def
  by (auto intro!: filter_cong dest: matches_md_not_in_hidden_directory)

lemma glob_md_no_hidden_piece:
  "rel \<in> set (glob_md dir ignore False fs) \<Longrightarrow> piece \<in> set (splitOn CHR ''/'' rel) \<Longrightarrow> \<not> hidden piece"
  by (auto simp: glob_md_def split: if_splits dest: matches_md_no_hidden_piece)

lemma search_loop_paths:
  "search_loop h pr fs q files results = Inr out \<Longrightarrow> path ` set out \<subseteq> path ` set results \<union> set files"
proof (induction files arbitrary: results)
  case Nil
  then show ?case by auto
next
  case (Cons candidate rest)
  from Cons.prems show ?case
    by (auto simp: Let_def split: sum.splits if_splits dest!: Cons.IH) blast+
qed

lemma search_notes_paths:
  assumes "call_tool h pr fs ''search_notes'' args = (Inr (Result (Results found)), fs')"
  shows "path ` set found \<subseteq> set (glob_md (ABSOLUTE_VAULT_PATH pr) [''node_modules/**''] False fs)"
proof -
  from assms have
    "search_loop h pr fs (query args) (glob_md (ABSOLUTE_VAULT_PATH pr) [''node_modules/**''] False fs) []
       = Inr found"
    by (auto simp: call_tool_def tool_body_def split: sum.splits)
  from search_loop_paths [OF this] show ?thesis by simp
qed

lemma glob_md_with_dot:
  "glob_md ''/v'' [''node_modules/**''] True
     [(''/v'', Dir), (''/v/a.md'', File ''a''), (''/v/.git'', Dir), (''/v/.git/x.md'', File ''x'')]
     = [''a.md'', ''.git/x.md'']
   \<and> glob_md ''/v'' [''node_modules/**'', ''.git/**'', ''.obsidian/**''] True
     [(''/v'', Dir), (''/v/a.md'', File ''a''), (''/v/.git'', Dir), (''/v/.git/x.md'', File ''x'')]
     = [''a.md'']"
  by code_simp

text \<open>
  Claim C10 says that for some vaults a note under \<^verbatim>\<open>.git\<close> or \<^verbatim>\<open>.obsidian\<close> appears in
  the results of \<^verbatim>\<open>search_notes\<close>. There is no such vault: no path in a result of
  \<^verbatim>\<open>search_notes\<close> has a piece \<^verbatim>\<open>.git\<close> or \<^verbatim>\<open>.obsidian\<close>.
\<close>

theorem no_hidden_directory_in_search:
  "\<not> (\<exists>h pr fs args found fs' r.
         call_tool h pr fs ''search_notes'' args = (Inr (Result (Results found)), fs')
         \<and> r \<in> set found
         \<and> (''.git'' \<in> set (splitOn CHR ''/'' (path r)) \<or> ''.obsidian'' \<in> set (splitOn CHR ''/'' (path r))))"
proof
  assume "\<exists>h pr fs args found fs' r.
         call_tool h pr fs ''search_notes'' args = (Inr (Result (Results found)), fs')
         \<and> r \<in> set found
         \<and> (''.git'' \<in> set (splitOn CHR ''/'' (path r)) \<or> ''.obsidian'' \<in> set (splitOn CHR ''/'' (path r)))"
  then obtain h pr fs args found fs' r where
    run: "call_tool h pr fs ''search_notes'' args = (Inr (Result (Results found)), fs')"
    and r: "r \<in> set found"
    and under: "''.git'' \<in> set (splitOn CHR ''/'' (path r)) \<or> ''.obsidian'' \<in> set (splitOn CHR ''/'' (path r))"
    by blast
  from search_notes_paths [OF run] r
  have "path r \<in> set (glob_md (ABSOLUTE_VAULT_PATH pr) [''node_modules/**''] False fs)" by auto
  from glob_md_no_hidden_piece [OF this]
  have "\<not> hidden ''.git'' \<or> \<not> hidden ''.obsidian''" using under by blast
  then show False by (simp add: hidden_def)
qed

text \<open>
  Claim C10, amended. \<^verbatim>\<open>search_notes\<close> enumerates the notes with the ignore pattern
  \<^verbatim>\<open>node_modules/**\<close> alone, \<^verbatim>\<open>list_notes\<close> and the resource listing with \<^verbatim>\<open>.git/**\<close>
  and \<^verbatim>\<open>.obsidian/**\<close> in addition; as \<^verbatim>\<open>glob\<close> is called without the option \<^verbatim>\<open>dot\<close>,
  the enumerations are the same list all the same. Every path in a result of
  \<^verbatim>\<open>search_notes\<close> is the name of a listed resource and is in the output of
  \<^verbatim>\<open>list_notes\<close> when the limit is large enough.
\<close>

theorem search_and_listings_enumerate_alike:
  assumes "call_tool h pr fs ''search_notes'' args = (Inr (Result (Results found)), fs')"
  shows "glob_md (ABSOLUTE_VAULT_PATH pr) [''node_modules/**''] False fs
           = glob_md (ABSOLUTE_VAULT_PATH pr) [''node_modules/**'', ''.git/**'', ''.obsidian/**''] False fs
         \<and> path ` set found \<subseteq> name ` set (list_resources pr fs)
         \<and> (\<exists>listed. call_tool h pr fs ''list_notes'' (args\<lparr>limit := Some (int (length fs))\<rparr>)
                        = (Inr (Result (Paths listed)), fs)
                      \<and> path ` set found \<subseteq> set listed)"
proof -
  let ?all = "glob_md (ABSOLUTE_VAULT_PATH pr) [''node_modules/**'', ''.git/**'', ''.obsidian/**''] False fs"
  have same: "glob_md (ABSOLUTE_VAULT_PATH pr) [''node_modules/**''] False fs = ?all"
    by (rule glob_md_same_without_dot)
  have sub: "path ` set found \<subseteq> set ?all"
    using search_notes_paths [OF assms] same by simp
  have names: "name ` set (list_resources pr fs) = set ?all"
    by (auto simp: list_resources_def image_iff)
  have "length ?all \<le> length fs"
    by (auto simp: glob_md_def map_filter_def intro: le_trans [OF length_filter_le])
  then have "slice0 ?all (int (length fs)) = ?all"
    by (simp add: slice0_def)
  then have "call_tool h pr fs ''list_notes'' (args\<lparr>limit := Some (int (length fs))\<rparr>)
               = (Inr (Result (Paths ?all)), fs)"
    by (simp add: call_tool_def tool_body_def Let_def)
  with same sub names show ?thesis by auto
qed

theorem search_and_listings_enumerate_alike_witness:
  "call_tool plain_host \<lparr>cwd = ''/'', VAULT_PATH = ''/v''\<rparr>
     [(''/v'', Dir), (''/v/a.md'', File ''a''), (''/v/.git'', Dir), (''/v/.git/x.md'', File ''a''),
      (''/v/.obsidian'', Dir), (''/v/.obsidian/y.md'', File ''a'')]
     ''search_notes''
     \<lparr>notePath = [], content = [], old_text = [], new_text = [], query = ''a'', limit = None\<rparr>
   = (Inr (Result (Results [\<lparr>path = ''a.md'', snippet = ''...a...''\<rparr>])),
      [(''/v'', Dir), (''/v/a.md'', File ''a''), (''/v/.git'', Dir), (''/v/.git/x.md'', File ''a''),
       (''/v/.obsidian'', Dir), (''/v/.obsidian/y.md'', File ''a'')])
   \<and> glob_md (ABSOLUTE_VAULT_PATH \<lparr>cwd = ''/'', VAULT_PATH = ''/v''\<rparr>) [''node_modules/**''] False
       [(''/v'', Dir), (''/v/a.md'', File ''a''), (''/v/.git'', Dir), (''/v/.git/x.md'', File ''a''),
        (''/v/.obsidian'', Dir), (''/v/.obsidian/y.md'', File ''a'')]
     = glob_md (ABSOLUTE_VAULT_PATH \<lparr>cwd = ''/'', VAULT_PATH = ''/v''\<rparr>)
         [''node_modules/**'', ''.git/**'', ''.obsidian/**''] False
       [(''/v'', Dir), (''/v/a.md'', File ''a''), (''/v/.git'', Dir), (''/v/.git/x.md'', File ''a''),
        (''/v/.obsidian'', Dir), (''/v/.obsidian/y.md'', File ''a'')]
   \<and> path ` set [\<lparr>path = ''a.md'', snippet = ''...a...''\<rparr>]
       \<subseteq> name ` set (list_resources \<lparr>cwd = ''/'', VAULT_PATH = ''/v''\<rparr>
           [(''/v'', Dir), (''/v/a.md'', File ''a''), (''/v/.git'', Dir), (''/v/.git/x.md'', File ''a''),
            (''/v/.obsidian'', Dir), (''/v/.obsidian/y.md'', File ''a'')])"
proof -
  have run: "call_tool plain_host \<lparr>cwd = ''/'', VAULT_PATH = ''/v''\<rparr>
     [(''/v'', Dir), (''/v/a.md'', File ''a''), (''/v/.git'', Dir), (''/v/.git/x.md'', File ''a''),
      (''/v/.obsidian'', Dir), (''/v/.obsidian/y.md'', File ''a'')]
     ''search_notes''
     \<lparr>notePath = [], content = [], old_text = [], new_text = [], query = ''a'', limit = None\<rparr>
   = (Inr (Result (Results [\<lparr>path = ''a.md'', snippet = ''...a...''\<rparr>])),
      [(''/v'', Dir), (''/v/a.md'', File ''a''), (''/v/.git'', Dir), (''/v/.git/x.md'', File ''a''),
       (''/v/.obsidian'', Dir), (''/v/.obsidian/y.md'', File ''a'')])"
    by code_simp
  note alike = search_and_listings_enumerate_alike [OF run]
  from run alike [THEN conjunct1] alike [THEN conjunct2, THEN conjunct1] show ?thesis
    by (intro conjI)
qed

end
